theory Spec2Isabelle
  imports Main
begin

section \<open>Data model of \<open>minesweeper.py\<close>\<close>

text \<open>
  A cell is a pair (row, column) of Python integers. Nothing in the classes
  \<open>Sentence\<close> and \<open>MinesweeperAI\<close> restricts a cell to the board.
\<close>

type_synonym cell = "int \<times> int"

text \<open>
  The sets \<open>Sentence.mines\<close> and \<open>Sentence.safe\<close> never receive a cell. What the code
  adds to them is \<open>None\<close> (the result of \<open>set.remove\<close>, lines 128-130 and 138-139) and
  generator objects (the argument of \<open>add\<close> in lines 111 and 119). A generator object is
  hashed by identity; \<open>PyGen g\<close> is the generator object with identity \<open>g\<close>.
\<close>

datatype pyobj = PyCell cell | PyNone | PyGen nat

record sentence =
  cells :: "cell set"
  count :: int
  sent_mines :: "pyobj set"
  sent_safe :: "pyobj set"

text \<open>\<open>Sentence.__init__\<close> (lines 94-98).\<close>

definition Sentence :: "cell set \<Rightarrow> int \<Rightarrow> sentence" where
  "Sentence cs n = \<lparr>cells = cs, count = n, sent_mines = {}, sent_safe = {}\<rparr>"


text \<open>
  \<open>Sentence.known_mines\<close> (lines 106-112) and \<open>Sentence.known_safes\<close> (lines 114-120).
  Each returns the set object held in the field together with the sentence as the call
  leaves it. The argument \<open>g\<close> is the identity of the generator object that the call
  creates when its test succeeds.
\<close>

definition known_mines :: "nat \<Rightarrow> sentence \<Rightarrow> pyobj set \<times> sentence" where
  "known_mines g s =
     (let s' = (if int (card (cells s)) = count s
                then s\<lparr>sent_mines := insert (PyGen g) (sent_mines s)\<rparr> else s)
      in (sent_mines s', s'))"

definition known_safes :: "nat \<Rightarrow> sentence \<Rightarrow> pyobj set \<times> sentence" where
  "known_safes g s =
     (let s' = (if card (cells s) = 0
                then s\<lparr>sent_safe := insert (PyGen g) (sent_safe s)\<rparr> else s)
      in (sent_safe s', s'))"

text \<open>\<open>Sentence.mark_mine\<close> (lines 122-130) and \<open>Sentence.mark_safe\<close> (lines 132-139).\<close>

definition Sentence_mark_mine :: "cell \<Rightarrow> sentence \<Rightarrow> sentence" where
  "Sentence_mark_mine c s =
     (if c \<in> cells s
      then s\<lparr>cells := cells s - {c}, count := count s - 1,
             sent_mines := insert PyNone (sent_mines s)\<rparr>
      else s)"

definition Sentence_mark_safe :: "cell \<Rightarrow> sentence \<Rightarrow> sentence" where
  "Sentence_mark_safe c s =
     (if c \<in> cells s
      then s\<lparr>cells := cells s - {c}, sent_safe := insert PyNone (sent_safe s)\<rparr>
      else s)"

record ai =
  height :: int
  width :: int
  potential_moves :: "cell list"
  moves_made :: "cell set"
  mines :: "cell set"
  safes :: "cell set"
  knowledge :: "sentence list"

text \<open>
  \<open>MinesweeperAI.__init__\<close> (lines 147-164): \<open>potential_moves\<close> is the list
  \<open>[(i,j) for i in range(height) for j in range(width)]\<close>.
\<close>

definition MinesweeperAI :: "int \<Rightarrow> int \<Rightarrow> ai" where
  "MinesweeperAI h w =
     \<lparr>height = h, width = w,
      potential_moves = concat (map (\<lambda>i. map (\<lambda>j. (i, j)) [0 .. w - 1]) [0 .. h - 1]),
      moves_made = {}, mines = {}, safes = {}, knowledge = []\<rparr>"

text \<open>
  \<open>MinesweeperAI.mark_mine\<close> (lines 172-185) and \<open>MinesweeperAI.mark_safe\<close>
  (lines 187-194). \<open>list.remove\<close> deletes the first occurrence and raises when there is
  none; the \<open>try\<close> swallows that, which is what \<open>remove1\<close> does.
\<close>

definition mark_mine :: "cell \<Rightarrow> ai \<Rightarrow> ai" where
  "mark_mine c st =
     st\<lparr>mines := insert c (mines st),
        potential_moves := remove1 c (potential_moves st),
        knowledge := map (Sentence_mark_mine c) (knowledge st)\<rparr>"

definition mark_safe :: "cell \<Rightarrow> ai \<Rightarrow> ai" where
  "mark_safe c st =
     st\<lparr>safes := insert c (safes st),
        knowledge := map (Sentence_mark_safe c) (knowledge st)\<rparr>"

subsection \<open>The loops \<open>for i in S: self.mark_safe(i)\<close> and \<open>for i in S: self.mark_mine(i)\<close>\<close>

text \<open>
  Lines 243-244, 247-248 and 257-258 run \<open>mark_safe\<close> or \<open>mark_mine\<close> over every element
  of a local set, in the iteration order of that set. The functions below give the state
  after such a loop directly; \<open>fold_mark_safe\<close> and \<open>fold_mark_mine\<close> (further down)
  show that running the single-cell method over any enumeration of the set gives exactly
  this state, so the iteration order does not matter.
\<close>

definition Sentence_mark_safe_all :: "cell set \<Rightarrow> sentence \<Rightarrow> sentence" where
  "Sentence_mark_safe_all S s =
     (if cells s \<inter> S \<noteq> {}
      then s\<lparr>cells := cells s - S, sent_safe := insert PyNone (sent_safe s)\<rparr>
      else s)"

definition Sentence_mark_mine_all :: "cell set \<Rightarrow> sentence \<Rightarrow> sentence" where
  "Sentence_mark_mine_all S s =
     (if cells s \<inter> S \<noteq> {}
      then s\<lparr>cells := cells s - S, count := count s - int (card (cells s \<inter> S)),
             sent_mines := insert PyNone (sent_mines s)\<rparr>
      else s)"

fun remove_each :: "cell set \<Rightarrow> cell list \<Rightarrow> cell list" where
  "remove_each S [] = []"
| "remove_each S (x # xs) =
     (if x \<in> S then remove_each (S - {x}) xs else x # remove_each S xs)"

definition mark_safe_all :: "cell set \<Rightarrow> ai \<Rightarrow> ai" where
  "mark_safe_all S st =
     st\<lparr>safes := safes st \<union> S,
        knowledge := map (Sentence_mark_safe_all S) (knowledge st)\<rparr>"

definition mark_mine_all :: "cell set \<Rightarrow> ai \<Rightarrow> ai" where
  "mark_mine_all S st =
     st\<lparr>mines := mines st \<union> S,
        potential_moves := remove_each S (potential_moves st),
        knowledge := map (Sentence_mark_mine_all S) (knowledge st)\<rparr>"

subsection \<open>\<open>MinesweeperAI.add_knowledge\<close>\<close>

text \<open>
  Lines 226-230: the candidate cells \<open>(i, j)\<close> for \<open>i\<close> in \<open>range(x-1, x+2)\<close> and
  \<open>j\<close> in \<open>range(y-1, y+2)\<close>, and the test that keeps a candidate.
\<close>

definition around :: "cell \<Rightarrow> cell list" where
  "around c =
     concat (map (\<lambda>i. map (\<lambda>j. (i, j)) [snd c - 1 .. snd c + 1]) [fst c - 1 .. fst c + 1])"

definition new_sentence_cells :: "cell \<Rightarrow> ai \<Rightarrow> cell set" where
  "new_sentence_cells c st =
     set (filter (\<lambda>t. t \<noteq> c \<and> (t \<notin> moves_made st \<and> t \<notin> safes st \<and> t \<notin> mines st))
            (around c))"

text \<open>
  Lines 211-232: record the move, mark the cell safe, remove it from every sentence,
  build the new sentence and append it to the knowledge base.
\<close>

definition add_new_sentence :: "cell \<Rightarrow> int \<Rightarrow> ai \<Rightarrow> ai" where
  "add_new_sentence c n st =
     (let st1 = st\<lparr>moves_made := insert c (moves_made st)\<rparr>;
          st2 = mark_safe c st1;
          st3 = st2\<lparr>knowledge :=
                  map (\<lambda>s. if c \<in> cells s then s\<lparr>cells := cells s - {c}\<rparr> else s)
                      (knowledge st2)\<rparr>;
          new_sentence = Sentence (new_sentence_cells c st3) n
      in st3\<lparr>knowledge := knowledge st3 @ [new_sentence]\<rparr>)"

text \<open>
  Lines 237-258: the body of \<open>for sentence in self.knowledge\<close>, for the sentence at
  index \<open>i\<close> of the list. \<open>new_sentence\<close> is the object appended in line 232; it stays at
  index \<open>k\<close> of the list (the list only grows at its end) and is mutated in place by the
  marking methods, so the body reads it from the list. \<open>new_cells\<close> and \<open>safe_cells\<close>
  are fresh sets, computed before anything is marked.
\<close>

definition infer_step :: "nat \<Rightarrow> nat \<Rightarrow> ai \<Rightarrow> ai" where
  "infer_step k i st =
     (let sentence = knowledge st ! i; new_sentence = knowledge st ! k in
      if cells sentence \<subseteq> cells new_sentence then
        (let new_cells = cells new_sentence - cells sentence;
             safe_cells = cells new_sentence \<inter> cells sentence;
             new_count = count new_sentence - count sentence;
             st1 = st\<lparr>knowledge := knowledge st @ [Sentence new_cells new_count]\<rparr>;
             st2 = mark_safe_all safe_cells st1
         in if int (card new_cells) = new_count then mark_mine_all new_cells st2 else st2)
      else if cells new_sentence \<subseteq> cells sentence then
        (let new_cells = cells sentence - cells new_sentence;
             new_count = count sentence - count new_sentence;
             st1 = st\<lparr>knowledge := knowledge st @ [Sentence new_cells new_count]\<rparr>
         in if int (card new_cells) = new_count then mark_mine_all new_cells st1 else st1)
      else st)"

text \<open>
  The \<open>for\<close> statement of line 236 over a list that the body appends to: Python's list
  iterator keeps an index and stops when the index reaches the current length of the
  list. The loop may run forever, in which case the result is \<open>None\<close>.
\<close>

partial_function (option) infer_loop :: "nat \<Rightarrow> nat \<Rightarrow> ai \<Rightarrow> ai option" where
  "infer_loop k i st =
     (if i < length (knowledge st) then infer_loop k (Suc i) (infer_step k i st)
      else Some st)"

definition add_knowledge :: "cell \<Rightarrow> int \<Rightarrow> ai \<Rightarrow> ai option" where
  "add_knowledge c n st = infer_loop (length (knowledge st)) 0 (add_new_sentence c n st)"

text \<open>The state after the first \<open>n\<close> iterations of the loop that starts at index \<open>i\<close>.\<close>

fun infer_steps :: "nat \<Rightarrow> nat \<Rightarrow> nat \<Rightarrow> ai \<Rightarrow> ai" where
  "infer_steps k i 0 st = st"
| "infer_steps k i (Suc n) st = infer_steps k (Suc i) n (infer_step k i st)"

subsection \<open>Move selection\<close>

text \<open>
  \<open>MinesweeperAI.make_safe_move\<close> (lines 271-278). The loop returns the first cell, in
  the iteration order of the set \<open>self.safes\<close>, that is not in \<open>moves_made\<close>. Python
  does not specify that order, so it is an argument: \<open>order\<close> is the sequence in which
  the iteration yields the elements of \<open>safes\<close>.
\<close>

definition make_safe_move :: "cell list \<Rightarrow> ai \<Rightarrow> cell option \<times> ai" where
  "make_safe_move order st =
     (case find (\<lambda>cell. cell \<notin> moves_made st) order of
        Some cell \<Rightarrow> (Some cell, st\<lparr>potential_moves := remove1 cell (potential_moves st)\<rparr>)
      | None \<Rightarrow> (None, st))"

text \<open>
  \<open>MinesweeperAI.make_random_move\<close> (lines 287-289). \<open>random.choice\<close> raises
  \<open>IndexError\<close> on an empty list and otherwise returns the element at a random index
  below the length; \<open>r\<close> is the number drawn.
\<close>

datatype error = IndexError

definition make_random_move :: "nat \<Rightarrow> ai \<Rightarrow> error + cell \<times> ai" where
  "make_random_move r st =
     (if potential_moves st = [] then Inl IndexError
      else (let random_move = potential_moves st ! (r mod length (potential_moves st))
            in Inr (random_move,
                    st\<lparr>potential_moves := remove1 random_move (potential_moves st)\<rparr>)))"

text \<open>
  The coordinate universe of the board, as a set, and the candidates that the
  specification names for a random move.
\<close>

definition universe :: "ai \<Rightarrow> cell set" where
  "universe st = {0 ..< height st} \<times> {0 ..< width st}"


text \<open>
  A sequence of calls to the two selectors and to \<open>mark_mine\<close>, and the cells that the
  selectors return along it, in order. An exception ends the run.
\<close>

datatype call = SafeMove "cell list" | RandomMove nat | MarkMine cell

fun run :: "call list \<Rightarrow> ai \<Rightarrow> error + cell list \<times> ai" where
  "run [] st = Inr ([], st)"
| "run (SafeMove order # cs) st =
     (case make_safe_move order st of
        (None, st') \<Rightarrow> run cs st'
      | (Some c, st') \<Rightarrow>
          (case run cs st' of Inl e \<Rightarrow> Inl e | Inr (rs, st'') \<Rightarrow> Inr (c # rs, st'')))"
| "run (RandomMove r # cs) st =
     (case make_random_move r st of
        Inl e \<Rightarrow> Inl e
      | Inr (c, st') \<Rightarrow>
          (case run cs st' of Inl e \<Rightarrow> Inl e | Inr (rs, st'') \<Rightarrow> Inr (c # rs, st'')))"
| "run (MarkMine c # cs) st = run cs (mark_mine c st)"

subsection \<open>The board: class \<open>Minesweeper\<close>\<close>

text \<open>
  The fields of the game that \<open>is_mine\<close> and \<open>nearby_mines\<close> read. \<open>__init__\<close> places the
  mines at random, so a layout is any board of the given shape.
\<close>

record minesweeper =
  board_height :: int
  board_width :: int
  board :: "bool list list"

text \<open>A board with no mine (lines 18-23), and line 31 for one cell.\<close>

definition empty_board :: "int \<Rightarrow> int \<Rightarrow> minesweeper" where
  "empty_board h w =
     \<lparr>board_height = h, board_width = w,
      board = replicate (nat h) (replicate (nat w) False)\<rparr>"

definition place_mine :: "nat \<times> nat \<Rightarrow> minesweeper \<Rightarrow> minesweeper" where
  "place_mine c g = g\<lparr>board := (board g)[fst c := (board g ! fst c)[snd c := True]]\<rparr>"

text \<open>
  Subscripting a Python list with an integer: an index from \<open>-len\<close> to \<open>-1\<close> is taken
  from the end of the list, and an index outside \<open>-len .. len - 1\<close> raises.
\<close>

definition py_get :: "'a list \<Rightarrow> int \<Rightarrow> error + 'a" where
  "py_get xs i =
     (if 0 \<le> i \<and> i < int (length xs) then Inr (xs ! nat i)
      else if - int (length xs) \<le> i \<and> i < 0 then Inr (xs ! nat (int (length xs) + i))
      else Inl IndexError)"

text \<open>\<open>Minesweeper.is_mine\<close> (lines 51-53).\<close>

definition is_mine :: "minesweeper \<Rightarrow> cell \<Rightarrow> error + bool" where
  "is_mine g c =
     (case py_get (board g) (fst c) of Inl e \<Rightarrow> Inl e | Inr row \<Rightarrow> py_get row (snd c))"

text \<open>
  \<open>Minesweeper.nearby_mines\<close> (lines 55-78): the same two ranges as in
  \<open>add_knowledge\<close>, but a candidate counts only when it lies on the board.
\<close>

definition in_bounds :: "minesweeper \<Rightarrow> cell \<Rightarrow> bool" where
  "in_bounds g t = (0 \<le> fst t \<and> fst t < board_height g \<and> 0 \<le> snd t \<and> snd t < board_width g)"

definition nearby_mines :: "minesweeper \<Rightarrow> cell \<Rightarrow> int" where
  "nearby_mines g c =
     int (length (filter (\<lambda>t. t \<noteq> c \<and> in_bounds g t \<and> board g ! nat (fst t) ! nat (snd t))
                    (around c)))"

subsection \<open>Auxiliary notions used in the proofs\<close>

text \<open>
  The invariant of the inference loop: the new sentence (index \<open>k\<close>) and the current
  index \<open>i\<close> are inside the list, and once the loop has passed the new sentence, the new
  sentence has no cells left.
\<close>

definition loop_inv :: "nat \<Rightarrow> nat \<Rightarrow> ai \<Rightarrow> bool" where
  "loop_inv k i st =
     (k < length (knowledge st) \<and> i < length (knowledge st) \<and>
      (if k < i then cells (knowledge st ! k) = {} else True))"

text \<open>
  The state of the loop once it has passed the new sentence and reached index \<open>m\<close>:
  the new sentence is empty and so is every sentence from index \<open>m\<close> on.
\<close>

definition tail_inv :: "nat \<Rightarrow> nat \<Rightarrow> nat \<Rightarrow> ai \<Rightarrow> bool" where
  "tail_inv k m i st =
     (k < i \<and> m \<le> i \<and> i < length (knowledge st) \<and> cells (knowledge st ! k) = {} \<and>
      list_all (\<lambda>s. cells s = {}) (drop m (knowledge st)))"



text \<open>An 8 by 8 game whose only mine is at \<open>(0, 1)\<close>.\<close>

definition one_mine :: minesweeper where
  "one_mine = place_mine (0, 1) (empty_board 8 8)"

section \<open>The set loops do not depend on the iteration order\<close>

lemma Sentence_mark_safe_all_step:
  "Sentence_mark_safe_all S (Sentence_mark_safe x s) = Sentence_mark_safe_all (insert x S) s"
proof (cases "x \<in> cells s")
  case True
  have d: "cells s - {x} - S = cells s - insert x S" by blast
  show ?thesis
  proof (cases "(cells s - {x}) \<inter> S = {}")
    case e: True
    then have "cells s - {x} = cells s - insert x S" by blast
    with True e show ?thesis
      by (auto simp: Sentence_mark_safe_all_def Sentence_mark_safe_def)
  next
    case False
    with True d show ?thesis
      by (auto simp: Sentence_mark_safe_all_def Sentence_mark_safe_def)
  qed
next
  case False
  then have "cells s \<inter> insert x S = cells s \<inter> S" "cells s - insert x S = cells s - S"
    by blast+
  with False show ?thesis
    by (simp add: Sentence_mark_safe_all_def Sentence_mark_safe_def)
qed

lemma mark_safe_all_empty: "mark_safe_all {} st = st"
  by (simp add: mark_safe_all_def Sentence_mark_safe_all_def map_idI)

lemma mark_safe_all_step: "mark_safe_all S (mark_safe x st) = mark_safe_all (insert x S) st"
  by (simp add: mark_safe_all_def mark_safe_def Sentence_mark_safe_all_step comp_def)

lemma fold_mark_safe: "fold mark_safe xs st = mark_safe_all (set xs) st"
  by (induction xs arbitrary: st) (simp_all add: mark_safe_all_empty mark_safe_all_step)

lemma remove_each_empty [simp]: "remove_each {} xs = xs"
  by (induction xs) simp_all

lemma mark_mine_all_empty: "mark_mine_all {} st = st"
  by (simp add: mark_mine_all_def Sentence_mark_mine_all_def map_idI)

lemma remove_each_remove1:
  "y \<notin> S \<Longrightarrow> remove_each S (remove1 y xs) = remove_each (insert y S) xs"
proof (induction xs arbitrary: S)
  case Nil
  then show ?case by simp
next
  case (Cons x xs)
  show ?case
  proof (cases "x = y")
    case True
    with Cons.prems have "insert y S - {x} = S" by blast
    with True show ?thesis by simp
  next
    case False
    then have i: "insert y S - {x} = insert y (S - {x})" by blast
    from Cons.prems have "y \<notin> S - {x}" by simp
    from Cons.IH [OF this] Cons.IH [OF Cons.prems] False i show ?thesis by simp
  qed
qed

lemma Sentence_mark_mine_all_step:
  assumes "finite S" "y \<notin> S"
  shows "Sentence_mark_mine_all S (Sentence_mark_mine y s) = Sentence_mark_mine_all (insert y S) s"
proof (cases "y \<in> cells s")
  case True
  from assms(2) have e: "(cells s - {y}) \<inter> S = cells s \<inter> S" by blast
  from True have i: "cells s \<inter> insert y S = insert y (cells s \<inter> S)" by blast
  from assms have c: "card (insert y (cells s \<inter> S)) = Suc (card (cells s \<inter> S))" by simp
  have d: "cells s - {y} - S = cells s - insert y S" by blast
  show ?thesis
  proof (cases "cells s \<inter> S = {}")
    case n: True
    then have "cells s - {y} = cells s - insert y S" by blast
    with True n e i show ?thesis
      by (simp add: Sentence_mark_mine_all_def Sentence_mark_mine_def)
  next
    case False
    with True e i c d show ?thesis
      by (simp add: Sentence_mark_mine_all_def Sentence_mark_mine_def)
  qed
next
  case False
  then have "cells s \<inter> insert y S = cells s \<inter> S" "cells s - insert y S = cells s - S"
    by blast+
  with False show ?thesis
    by (simp add: Sentence_mark_mine_all_def Sentence_mark_mine_def)
qed

lemma mark_mine_all_step:
  assumes "finite S" "y \<notin> S"
  shows "mark_mine_all S (mark_mine y st) = mark_mine_all (insert y S) st"
  using assms
  by (simp add: mark_mine_all_def mark_mine_def Sentence_mark_mine_all_step
      remove_each_remove1 comp_def)

lemma fold_mark_mine: "distinct xs \<Longrightarrow> fold mark_mine xs st = mark_mine_all (set xs) st"
  by (induction xs arbitrary: st) (simp_all add: mark_mine_all_empty mark_mine_all_step)

section \<open>Basic facts about marking\<close>

lemma cells_Sentence_mark_safe_all [simp]:
  "cells (Sentence_mark_safe_all S s) = cells s - S"
  by (auto simp: Sentence_mark_safe_all_def)

lemma cells_Sentence_mark_mine_all [simp]:
  "cells (Sentence_mark_mine_all S s) = cells s - S"
  by (auto simp: Sentence_mark_mine_all_def)

lemma length_mark_safe_all [simp]:
  "length (knowledge (mark_safe_all S st)) = length (knowledge st)"
  by (simp add: mark_safe_all_def)

lemma length_mark_mine_all [simp]:
  "length (knowledge (mark_mine_all S st)) = length (knowledge st)"
  by (simp add: mark_mine_all_def)

lemma cells_mark_safe_all [simp]:
  "j < length (knowledge st) \<Longrightarrow>
   cells (knowledge (mark_safe_all S st) ! j) = cells (knowledge st ! j) - S"
  by (simp add: mark_safe_all_def)

lemma cells_mark_mine_all [simp]:
  "j < length (knowledge st) \<Longrightarrow>
   cells (knowledge (mark_mine_all S st) ! j) = cells (knowledge st ! j) - S"
  by (simp add: mark_mine_all_def)



lemma length_add_new_sentence:
  "length (knowledge (add_new_sentence c n st)) = Suc (length (knowledge st))"
  by (simp add: add_new_sentence_def Let_def mark_safe_def)

lemma around_origin:
  "around (0, 0) = [(-1,-1), (-1,0), (-1,1), (0,-1), (0,0), (0,1), (1,-1), (1,0), (1,1)]"
  by (simp add: around_def upto_rec1)

section \<open>The inference loop of \<open>add_knowledge\<close> does not terminate\<close>

lemma length_infer_step: "length (knowledge st) \<le> length (knowledge (infer_step k i st))"
  by (simp add: infer_step_def Let_def)

lemma cells_infer_step:
  "j < length (knowledge st) \<Longrightarrow>
   cells (knowledge (infer_step k i st) ! j) \<subseteq> cells (knowledge st ! j)"
  by (auto simp: infer_step_def Let_def nth_append)

text \<open>
  When the loop reaches the new sentence itself, the test of line 237 compares the
  sentence with itself and succeeds: a sentence is appended and every cell of the new
  sentence is marked safe, which empties it.
\<close>

lemma infer_step_self:
  assumes "k < length (knowledge st)"
  shows "length (knowledge (infer_step k k st)) = Suc (length (knowledge st))"
    and "cells (knowledge (infer_step k k st) ! k) = {}"
  using assms by (auto simp: infer_step_def Let_def nth_append)

text \<open>
  Once the new sentence is empty it is a subset of every sentence, so one of the two
  branches is taken at every later index and each iteration appends a sentence.
\<close>

lemma infer_step_empty:
  assumes "k < length (knowledge st)" "cells (knowledge st ! k) = {}"
  shows "length (knowledge (infer_step k i st)) = Suc (length (knowledge st))"
  using assms by (auto simp: infer_step_def Let_def)

lemma loop_inv_step:
  assumes "loop_inv k i st"
  shows "loop_inv k (Suc i) (infer_step k i st)"
proof -
  from assms have k: "k < length (knowledge st)" and i: "i < length (knowledge st)"
    by (simp_all add: loop_inv_def)
  consider "i < k" | "i = k" | "k < i" by linarith
  then show ?thesis
  proof cases
    case 1
    with k length_infer_step [of st k i] show ?thesis
      by (simp add: loop_inv_def)
  next
    case 2
    with k infer_step_self [of k st] show ?thesis
      by (simp add: loop_inv_def)
  next
    case 3
    with assms have e: "cells (knowledge st ! k) = {}"
      by (simp add: loop_inv_def)
    from cells_infer_step [OF k, of k i] e
    have "cells (knowledge (infer_step k i st) ! k) = {}" by simp
    with 3 k i infer_step_empty [OF k e, of i] show ?thesis
      by (simp add: loop_inv_def)
  qed
qed

lemma infer_loop_Some_not_inv:
  assumes "infer_loop k i st = Some y"
  shows "\<not> loop_inv k i st"
proof (rule infer_loop.raw_induct [where P = "\<lambda>k i st y. \<not> loop_inv k i st", OF _ assms])
  fix f :: "nat \<Rightarrow> nat \<Rightarrow> ai \<Rightarrow> ai option" and k i st y
  assume IH: "\<And>k i st y. f k i st = Some y \<Longrightarrow> \<not> loop_inv k i st"
    and eq: "(if i < length (knowledge st) then f k (Suc i) (infer_step k i st) else Some st)
             = Some y"
  show "\<not> loop_inv k i st"
  proof
    assume inv: "loop_inv k i st"
    then have "i < length (knowledge st)" by (simp add: loop_inv_def)
    with eq have "f k (Suc i) (infer_step k i st) = Some y" by simp
    from IH [OF this] loop_inv_step [OF inv] show False by simp
  qed
qed

lemma infer_loop_diverges: "loop_inv k i st \<Longrightarrow> infer_loop k i st = None"
  using infer_loop_Some_not_inv [of k i st] by (cases "infer_loop k i st") auto

text \<open>
  Claim C1 says that every call of \<open>add_knowledge\<close> terminates, its loop over the
  knowledge base finishing after a bounded number of passes. The code does the opposite:
  for every cell, every count and every state of the agent, the loop of lines 236-258
  never reaches the end of the list it iterates over, because from the index of the new
  sentence on, each iteration appends one more sentence. The call returns for no input.
\<close>

theorem add_knowledge_never_returns: "add_knowledge c n st = None"
  unfolding add_knowledge_def
  by (rule infer_loop_diverges) (simp add: loop_inv_def length_add_new_sentence)

section \<open>The methods of \<open>Sentence\<close>\<close>

text \<open>
  Claim C4 says that \<open>known_safes\<close> returns the cells of the sentence when its count is
  0. The code tests the number of cells instead of the count (line 118) and returns the
  field \<open>safe\<close>: for the sentence \<open>{(0,1)} = 0\<close>, whose only cell is known to be safe,
  it returns the empty set and leaves the sentence as it was.
\<close>

theorem known_safes_count_zero:
  "known_safes g (Sentence {(0, 1)} 0) = ({}, Sentence {(0, 1)} 0)"
  by (simp add: known_safes_def Sentence_def)

text \<open>
  Claim C5 says that \<open>known_mines\<close> returns the cells of the sentence when there are as
  many cells as the count. The code adds a generator object to the field \<open>mines\<close>
  (line 111) and returns that field: for the sentence \<open>{(0,0)} = 1\<close> the result is a
  set whose only element is the generator object, not the cell \<open>(0,0)\<close>, and the field
  of the sentence has changed.
\<close>

theorem known_mines_all_mines:
  "known_mines g (Sentence {(0, 0)} 1) =
     ({PyGen g}, (Sentence {(0, 0)} 1)\<lparr>sent_mines := {PyGen g}\<rparr>)"
  by (simp add: known_mines_def Sentence_def)

section \<open>Marking a cell twice\<close>

lemma Sentence_mark_mine_twice:
  "Sentence_mark_mine c (Sentence_mark_mine c s) = Sentence_mark_mine c s"
  by (simp add: Sentence_mark_mine_def)

lemma Sentence_mark_safe_twice:
  "Sentence_mark_safe c (Sentence_mark_safe c s) = Sentence_mark_safe c s"
  by (simp add: Sentence_mark_safe_def)

text \<open>
  Claim C9: calling \<open>mark_mine(c)\<close> twice in a row leaves \<open>mines\<close>, \<open>safes\<close>,
  \<open>moves_made\<close> and every sentence of the knowledge base (its cells and its count, and
  its other fields too) as one call leaves them; and a second \<open>mark_safe(c)\<close> changes
  nothing at all in the state.
\<close>

theorem mark_twice_same_state:
  "mines (mark_mine c (mark_mine c st)) = mines (mark_mine c st) \<and>
   safes (mark_mine c (mark_mine c st)) = safes (mark_mine c st) \<and>
   moves_made (mark_mine c (mark_mine c st)) = moves_made (mark_mine c st) \<and>
   knowledge (mark_mine c (mark_mine c st)) = knowledge (mark_mine c st) \<and>
   mark_safe c (mark_safe c st) = mark_safe c st"
  by (simp add: mark_mine_def mark_safe_def Sentence_mark_mine_twice
      Sentence_mark_safe_twice comp_def)

section \<open>The sentence built by \<open>add_knowledge\<close>\<close>

text \<open>
  Claim C7 says that the new sentence holds only neighbours that lie on the board. Lines
  226-230 have no bounds test (\<open>Minesweeper.nearby_mines\<close> has one, line 74): on a new
  8 by 8 agent, \<open>add_knowledge((0,0), 0)\<close> builds a sentence over all eight cells
  around \<open>(0,0)\<close>, five of which, such as \<open>(-1,-1)\<close>, are not cells of the board.
\<close>

theorem new_sentence_out_of_bounds:
  "knowledge (add_new_sentence (0, 0) 0 (MinesweeperAI 8 8)) =
     [Sentence {(-1,-1), (-1,0), (-1,1), (0,-1), (0,1), (1,-1), (1,0), (1,1)} 0]
   \<and> (-1, -1) \<notin> universe (MinesweeperAI 8 8)"
  by (simp add: add_new_sentence_def Let_def mark_safe_def new_sentence_cells_def
      around_origin MinesweeperAI_def universe_def)

section \<open>The loop after it has passed the new sentence\<close>


lemma tail_step:
  assumes "tail_inv k m i st"
  shows "infer_step k i st =
         st\<lparr>knowledge := knowledge st @
              [Sentence {} (count (knowledge st ! k) - count (knowledge st ! i))]\<rparr>"
proof -
  from assms have i: "i < length (knowledge st)" and m: "m \<le> i"
    and e: "cells (knowledge st ! k) = {}"
    and a: "list_all (\<lambda>s. cells s = {}) (drop m (knowledge st))"
    by (simp_all add: tail_inv_def)
  from i m have "drop m (knowledge st) ! (i - m) = knowledge st ! i"
    and "i - m < length (drop m (knowledge st))"
    by simp_all
  then have "knowledge st ! i \<in> set (drop m (knowledge st))"
    by (metis nth_mem)
  with a have "cells (knowledge st ! i) = {}" by (simp add: list_all_iff)
  with e show ?thesis
    by (simp add: infer_step_def Let_def mark_safe_all_empty mark_mine_all_empty)
qed

lemma tail_inv_step:
  assumes "tail_inv k m i st"
  shows "tail_inv k m (Suc i) (infer_step k i st)"
  using assms unfolding tail_step [OF assms]
  by (auto simp: tail_inv_def nth_append Sentence_def)

lemma tail_steps:
  assumes "tail_inv k m i st"
  shows "tail_inv k m (i + n) (infer_steps k i n st) \<and>
         take m (knowledge (infer_steps k i n st)) = take m (knowledge st) \<and>
         safes (infer_steps k i n st) = safes st \<and>
         mines (infer_steps k i n st) = mines st"
  using assms
proof (induction n arbitrary: i st)
  case 0
  then show ?case by simp
next
  case (Suc n)
  from Suc.prems have l: "m \<le> length (knowledge st)" by (simp add: tail_inv_def)
  from Suc.IH [OF tail_inv_step [OF Suc.prems]] l show ?case
    by (simp add: tail_step [OF Suc.prems])
qed




section \<open>What the first iteration does on a new agent\<close>

text \<open>
  On a new agent the knowledge base holds only the new sentence, so the first iteration
  of the loop compares the new sentence with itself: lines 239 and 243-244 mark every
  cell of the new sentence safe, whatever the count is.
\<close>

lemma board_one_mine: "board one_mine =
  [[False, True, False, False, False, False, False, False],
   replicate 8 False, replicate 8 False, replicate 8 False, replicate 8 False,
   replicate 8 False, replicate 8 False, replicate 8 False]"
  by (simp add: one_mine_def place_mine_def empty_board_def numeral_eq_Suc)

lemma first_step:
  "infer_step 0 0 (add_new_sentence (0, 0) 1 (MinesweeperAI 8 8)) =
   (MinesweeperAI 8 8)\<lparr>moves_made := {(0,0)},
      safes := {(0,0), (-1,-1), (-1,0), (-1,1), (0,-1), (0,1), (1,-1), (1,0), (1,1)},
      knowledge := [\<lparr>cells = {}, count = 1, sent_mines = {}, sent_safe = {PyNone}\<rparr>,
                    Sentence {} 0]\<rparr>"
  by (auto simp add: infer_step_def add_new_sentence_def Let_def mark_safe_def
      new_sentence_cells_def around_origin MinesweeperAI_def mark_safe_all_def
      mark_mine_all_def Sentence_def Sentence_mark_safe_all_def Sentence_mark_mine_all_def)

lemma first_step_tail:
  "tail_inv 0 (Suc 0) (Suc 0) (infer_step 0 0 (add_new_sentence (0, 0) 1 (MinesweeperAI 8 8)))"
  by (simp add: first_step tail_inv_def Sentence_def)

text \<open>
  Claim C2 says that, for counts that are true for a fixed layout, no mine ever enters
  \<open>safes\<close>. Take the 8 by 8 layout whose only mine is at \<open>(0,1)\<close> and a new agent;
  the cell \<open>(0,0)\<close> is not a mine and has one mine among its neighbours, so
  \<open>add_knowledge((0,0), 1)\<close> is consistent with the layout. After the first iteration
  of the loop, and after any number of further iterations, the mine \<open>(0,1)\<close> is in
  \<open>safes\<close>.
\<close>

theorem mine_marked_safe:
  "is_mine one_mine (0, 0) = Inr False \<and>
   is_mine one_mine (0, 1) = Inr True \<and>
   nearby_mines one_mine (0, 0) = 1 \<and>
   (0, 1) \<in> safes (infer_steps 0 0 (Suc n) (add_new_sentence (0, 0) 1 (MinesweeperAI 8 8)))"
proof -
  from tail_steps [OF first_step_tail, of n]
  have "safes (infer_steps 0 0 (Suc n) (add_new_sentence (0, 0) 1 (MinesweeperAI 8 8))) =
        safes (infer_step 0 0 (add_new_sentence (0, 0) 1 (MinesweeperAI 8 8)))"
    by simp
  then have "(0, 1) \<in> safes (infer_steps 0 0 (Suc n) (add_new_sentence (0, 0) 1 (MinesweeperAI 8 8)))"
    by (simp add: first_step)
  moreover have "is_mine one_mine (0, 0) = Inr False"
    "is_mine one_mine (0, 1) = Inr True"
    by (simp_all add: is_mine_def py_get_def board_one_mine)
  moreover have "nearby_mines one_mine (0, 0) = 1"
    by (simp add: nearby_mines_def board_one_mine around_origin in_bounds_def)
      (simp add: one_mine_def empty_board_def place_mine_def)
  ultimately show ?thesis by simp
qed

text \<open>
  Claim C3 says that after every call of \<open>add_knowledge\<close> every sentence has a count
  between 0 and its number of cells. The call \<open>add_knowledge((0,0), 1)\<close> on a new agent
  never returns, and from the first iteration of its loop on, the first sentence of the
  knowledge base has no cells and count 1.
\<close>

theorem count_exceeds_cells:
  "cells (knowledge (infer_steps 0 0 (Suc n) (add_new_sentence (0, 0) 1 (MinesweeperAI 8 8))) ! 0) = {} \<and>
   count (knowledge (infer_steps 0 0 (Suc n) (add_new_sentence (0, 0) 1 (MinesweeperAI 8 8))) ! 0) = 1"
proof -
  let ?K = "knowledge (infer_steps 0 0 (Suc n) (add_new_sentence (0, 0) 1 (MinesweeperAI 8 8)))"
  from tail_steps [OF first_step_tail, of n]
  have "take (Suc 0) ?K =
        take (Suc 0) (knowledge (infer_step 0 0 (add_new_sentence (0, 0) 1 (MinesweeperAI 8 8))))"
    by simp
  then have "take (Suc 0) ?K = [\<lparr>cells = {}, count = 1, sent_mines = {}, sent_safe = {PyNone}\<rparr>]"
    by (simp add: first_step)
  then have "take (Suc 0) ?K ! 0 = \<lparr>cells = {}, count = 1, sent_mines = {}, sent_safe = {PyNone}\<rparr>"
    by simp
  then have "?K ! 0 = \<lparr>cells = {}, count = 1, sent_mines = {}, sent_safe = {PyNone}\<rparr>"
    by simp
  then show ?thesis by simp
qed


section \<open>Subset inference\<close>





subsection \<open>Two sentences already in the knowledge base are never compared\<close>












subsection \<open>What one iteration derives\<close>



section \<open>Move selection\<close>


lemma potential_moves_2_2:
  "potential_moves (MinesweeperAI 2 2) = [(0,0), (0,1), (1,0), (1,1)]"
  by (simp add: MinesweeperAI_def upto_rec1)



lemma nth_mod_mem: "xs \<noteq> [] \<Longrightarrow> xs ! (r mod length xs) \<in> set xs"
  by simp




subsection \<open>Cells returned along a sequence of calls\<close>

text \<open>
  Claim C10, as stated, fails: \<open>make_safe_move\<close> does not look at \<open>potential_moves\<close>
  and does not record what it returns, so it returns the same cell again. After
  \<open>mark_safe((0,0))\<close> on a new agent, two calls of \<open>make_safe_move()\<close> in a row both
  return \<open>(0,0)\<close>.
\<close>

theorem safe_move_returns_cell_twice:
  "run [SafeMove [(0, 0)], SafeMove [(0, 0)]] (mark_safe (0, 0) (MinesweeperAI 8 8)) =
     Inr ([(0, 0), (0, 0)],
          (mark_safe (0, 0) (MinesweeperAI 8 8))
            \<lparr>potential_moves :=
               remove1 (0, 0) (remove1 (0, 0) (potential_moves (MinesweeperAI 8 8)))\<rparr>)"
  by (simp add: make_safe_move_def mark_safe_def MinesweeperAI_def)

lemma make_safe_move_potential_moves:
  assumes "make_safe_move ord st = (r, st')" "distinct (potential_moves st)"
  shows "distinct (potential_moves st')"
    and "set (potential_moves st') \<subseteq> set (potential_moves st)"
    and "r = Some c \<Longrightarrow> c \<notin> set (potential_moves st')"
  using assms by (auto simp: make_safe_move_def split: option.splits dest: notin_set_remove1)

lemma make_random_move_potential_moves:
  assumes "make_random_move r st = Inr (c, st')" "distinct (potential_moves st)"
  shows "distinct (potential_moves st')"
    and "set (potential_moves st') \<subseteq> set (potential_moves st)"
    and "c \<notin> set (potential_moves st')"
  using assms
  by (auto simp: make_random_move_def Let_def split: if_splits dest: notin_set_remove1)

lemma mark_mine_potential_moves:
  assumes "distinct (potential_moves st)"
  shows "distinct (potential_moves (mark_mine c st))"
    and "set (potential_moves (mark_mine c st)) \<subseteq> set (potential_moves st)"
  using assms by (auto simp: mark_mine_def dest: notin_set_remove1)

text \<open>
  Along any run, \<open>potential_moves\<close> keeps having no duplicates, only shrinks, and holds
  none of the cells returned so far.
\<close>

lemma run_potential_moves:
  assumes "run cs st = Inr (rs, st')" "distinct (potential_moves st)"
  shows "distinct (potential_moves st') \<and>
         set (potential_moves st') \<subseteq> set (potential_moves st) \<and>
         set rs \<inter> set (potential_moves st') = {}"
  using assms
proof (induction cs arbitrary: st rs)
  case Nil
  then show ?case by simp
next
  case (Cons a cs)
  show ?case
  proof (cases a)
    case (SafeMove ord)
    obtain r st1 where m: "make_safe_move ord st = (r, st1)"
      by (cases "make_safe_move ord st")
    note pm = make_safe_move_potential_moves [OF m Cons.prems(2)]
    show ?thesis
    proof (cases r)
      case None
      with Cons.prems(1) SafeMove m have "run cs st1 = Inr (rs, st')" by simp
      from Cons.IH [OF this pm(1)] pm(2) show ?thesis by blast
    next
      case (Some c)
      with Cons.prems(1) SafeMove m obtain rs' where
        r: "run cs st1 = Inr (rs', st')" and rs: "rs = c # rs'"
        by (auto split: sum.splits)
      from pm(3) Some have "c \<notin> set (potential_moves st1)" by simp
      with Cons.IH [OF r pm(1)] pm(2) rs show ?thesis by auto
    qed
  next
    case (RandomMove n)
    with Cons.prems(1) obtain c st1 rs' where
      m: "make_random_move n st = Inr (c, st1)" and
      r: "run cs st1 = Inr (rs', st')" and rs: "rs = c # rs'"
      by (auto split: sum.splits)
    note pm = make_random_move_potential_moves [OF m Cons.prems(2)]
    from Cons.IH [OF r pm(1)] pm(2,3) rs show ?thesis by auto
  next
    case (MarkMine c)
    with Cons.prems(1) have r: "run cs (mark_mine c st) = Inr (rs, st')" by simp
    note pm = mark_mine_potential_moves [OF Cons.prems(2), of c]
    from Cons.IH [OF r pm(1)] pm(2) show ?thesis by blast
  qed
qed

text \<open>
  Claim C10 as amended. Start from a state whose list \<open>potential_moves\<close> has no
  duplicates (as after \<open>__init__\<close>) and run any sequence of calls of
  \<open>make_safe_move\<close>, \<open>make_random_move\<close> and \<open>mark_mine\<close>. A cell that
  \<open>make_random_move\<close> then returns has not been returned before by either selector,
  because both remove the cell they return from \<open>potential_moves\<close>.
  (\<open>make_safe_move\<close> gives no such guarantee.)
\<close>

theorem random_move_not_returned_before:
  assumes "distinct (potential_moves st)"
    and "run cs st = Inr (rs, st')"
    and "make_random_move r st' = Inr (c, st'')"
  shows "c \<notin> set rs"
proof -
  from run_potential_moves [OF assms(2,1)]
  have "set rs \<inter> set (potential_moves st') = {}" by simp
  moreover from assms(3) have "c \<in> set (potential_moves st')"
    using nth_mod_mem [of "potential_moves st'" r]
    by (auto simp: make_random_move_def Let_def split: if_splits)
  ultimately show ?thesis by blast
qed

theorem random_move_not_returned_before_witness:
  "distinct (potential_moves (mark_safe (1, 0) (MinesweeperAI 2 2))) \<and>
   run [RandomMove 0, SafeMove [(1, 0)], MarkMine (1, 1)] (mark_safe (1, 0) (MinesweeperAI 2 2)) =
     Inr ([(0, 0), (1, 0)],
          (mark_mine (1, 1) (mark_safe (1, 0) (MinesweeperAI 2 2)))
            \<lparr>potential_moves := [(0, 1)]\<rparr>) \<and>
   make_random_move 0
     ((mark_mine (1, 1) (mark_safe (1, 0) (MinesweeperAI 2 2)))\<lparr>potential_moves := [(0, 1)]\<rparr>) =
     Inr ((0, 1),
       (mark_mine (1, 1) (mark_safe (1, 0) (MinesweeperAI 2 2)))\<lparr>potential_moves := []\<rparr>) \<and>
   ((0, 1) :: cell) \<notin> set [(0, 0), (1, 0)]"
proof -
  let ?st = "mark_safe (1, 0) (MinesweeperAI 2 2)"
  let ?st' = "(mark_mine (1, 1) ?st)\<lparr>potential_moves := [(0, 1)]\<rparr>"
  have d: "distinct (potential_moves ?st)"
    by (simp add: mark_safe_def potential_moves_2_2)
  have r: "run [RandomMove 0, SafeMove [(1, 0)], MarkMine (1, 1)] ?st =
           Inr ([(0, 0), (1, 0)], ?st')"
    by (simp add: make_random_move_def make_safe_move_def mark_safe_def mark_mine_def
        potential_moves_2_2)
      (simp add: MinesweeperAI_def)
  have m: "make_random_move 0 ?st' =
           Inr ((0, 1), (mark_mine (1, 1) ?st)\<lparr>potential_moves := []\<rparr>)"
    by (simp add: make_random_move_def)
  have f: "((0, 1) :: cell) \<notin> set [(0, 0), (1, 0)]"
    by (rule random_move_not_returned_before [OF d r m])
  show ?thesis by (rule conjI [OF d conjI [OF r conjI [OF m f]]])
qed

end
